theory Spec2Isabelle
  imports Main "HOL-Library.Sublist"
begin

section \<open>Strings, as Python's \<open>str\<close> operations use them\<close>

text \<open>
  A Python \<open>str\<close> is modelled as a \<open>string\<close> (a list of characters). Characters are
  the ASCII range: \<open>len\<close> is \<open>length\<close>, and \<open>lower\<close> and \<open>isnumeric\<close> act on ASCII
  letters and digits only.
\<close>

text \<open>\<open>sub in s\<close> on two strings: \<open>sub\<close> occurs in \<open>s\<close> as a contiguous substring.\<close>

fun str_in :: "string \<Rightarrow> string \<Rightarrow> bool" where
  "str_in sub [] = (sub = [])"
| "str_in sub (c # cs) = (prefix sub (c # cs) \<or> str_in sub cs)"

text \<open>Characters that are written by their codes.\<close>

definition LF :: char where "LF = CHR 0x0A"
definition CR :: char where "CR = CHR 0x0D"
definition squote :: char where "squote = CHR 0x27"
definition dquote :: char where "dquote = CHR 0x22"
definition backslash :: char where "backslash = CHR 0x5C"
definition backtick :: char where "backtick = CHR 0x60"

section \<open>\<open>is_valid_name\<close>\<close>

text \<open>
  The list \<open>invalid_characters\<close> of the source, in its order: each entry is a
  one-character string.
\<close>

definition invalid_characters :: "string list" where
  "invalid_characters =
     [''#'', ''%'', ''&'', ''{'', ''}'', ''/'', [backslash], ''<'', ''>'', ''*'', ''?'',
      '' '', ''$'', ''!'', [squote], [dquote], '':'', ''@'', ''+'', [backtick], ''|'', ''='']"

text \<open>
  \<open>for char in invalid_characters: if char in word: return char\<close>, then
  \<open>return "valid"\<close>.
\<close>

fun first_invalid :: "string list \<Rightarrow> string \<Rightarrow> string" where
  "first_invalid [] word = ''valid''"
| "first_invalid (char # rest) word =
     (if str_in char word then char else first_invalid rest word)"

definition is_valid_name :: "string \<Rightarrow> string" where
  "is_valid_name word = first_invalid invalid_characters word"

text \<open>
  The characters of \<open>invalid_characters\<close> as one string, in the order of the source: the
  space is the twelfth, between the question mark and the dollar.
\<close>

definition scan_order :: string where
  "scan_order =
     ''#%&{}/'' @ [backslash] @ ''<>*? $!'' @ [squote, dquote] @ '':@+'' @ [backtick] @ ''|=''"

text \<open>
  The scanning order as the specification words it: hash, percent, ampersand, the two
  braces, slash, backslash, the two angle brackets, star, question mark, dollar,
  exclamation mark, the two quotes, colon, at, plus, backtick, bar, equals, in that
  order, then the space, scanned last.
\<close>

definition spec_invalid_characters :: "string list" where
  "spec_invalid_characters =
     [''#'', ''%'', ''&'', ''{'', ''}'', ''/'', [backslash], ''<'', ''>'', ''*'', ''?'',
      ''$'', ''!'', [squote], [dquote], '':'', ''@'', ''+'', [backtick], ''|'', ''='', '' '']"

definition spec_is_valid_name :: "string \<Rightarrow> string" where
  "spec_is_valid_name word = first_invalid spec_invalid_characters word"

section \<open>The world a run acts on\<close>

text \<open>
  The exceptions the modelled code can raise. \<open>BuildError\<close> stands for whatever the
  build collaborators (\<open>Build.load\<close>, \<open>Build.execute\<close>) raise.
\<close>

datatype error =
  IndexError | FileNotFoundError | EOFError | AttributeError | UnboundLocalError | BuildError

text \<open>
  Text files by path (the string form of the path) with their content, the lines still
  to be typed on standard input, and what has been written to standard output: one entry
  for each \<open>print\<close> call and for each prompt of \<open>input\<close>. An exception leaves the world as
  it is at the point of the raise. Encodings and permissions are not modelled.
\<close>

record world =
  files :: "string \<Rightarrow> string option"
  stdin :: "string list"
  stdout :: "string list"

definition print_line :: "string \<Rightarrow> world \<Rightarrow> world" where
  "print_line s w = w\<lparr>stdout := stdout w @ [s]\<rparr>"

text \<open>
  Reading in text mode translates the line ends \<open>CR LF\<close> and \<open>CR\<close> to \<open>LF\<close>
  (universal newlines); writing on a POSIX system writes the text as it is.
\<close>

fun universal_newlines :: "string \<Rightarrow> string" where
  "universal_newlines [] = []"
| "universal_newlines [c] = (if c = CR then [LF] else [c])"
| "universal_newlines (c # d # cs) =
     (if c = CR then
        (if d = LF then LF # universal_newlines cs else LF # universal_newlines (d # cs))
      else c # universal_newlines (d # cs))"

text \<open>Splitting a text into its lines, each keeping its terminating \<open>LF\<close>.\<close>

fun split_lines :: "string \<Rightarrow> string list" where
  "split_lines [] = []"
| "split_lines (c # cs) =
     (if c = LF then [c] # split_lines cs
      else (case split_lines cs of [] \<Rightarrow> [c] # [] | l # ls \<Rightarrow> (c # l) # ls))"

text \<open>\<open>open(p, "r")\<close> followed by \<open>readlines()\<close>.\<close>

definition readlines :: "string \<Rightarrow> world \<Rightarrow> error + string list" where
  "readlines p w =
     (case files w p of
        None \<Rightarrow> Inl FileNotFoundError
      | Some txt \<Rightarrow> Inr (split_lines (universal_newlines txt)))"

text \<open>\<open>open(p, "w")\<close> followed by \<open>write(txt)\<close>: the file is replaced.\<close>

definition write_file :: "string \<Rightarrow> string \<Rightarrow> world \<Rightarrow> world" where
  "write_file p txt w = w\<lparr>files := (files w)(p \<mapsto> txt)\<rparr>"

text \<open>\<open>open(p, "a")\<close> followed by \<open>write(txt)\<close>: the file is created when absent.\<close>

definition append_file :: "string \<Rightarrow> string \<Rightarrow> world \<Rightarrow> world" where
  "append_file p txt w =
     w\<lparr>files := (files w)(p \<mapsto> (case files w p of None \<Rightarrow> txt | Some old \<Rightarrow> old @ txt))\<rparr>"

text \<open>\<open>os.remove(p)\<close>.\<close>

definition remove_file :: "string \<Rightarrow> world \<Rightarrow> error option \<times> world" where
  "remove_file p w =
     (case files w p of
        None \<Rightarrow> (Some FileNotFoundError, w)
      | Some _ \<Rightarrow> (None, w\<lparr>files := (files w)(p := None)\<rparr>))"

section \<open>\<open>confirm\<close>\<close>

definition lower_char :: "char \<Rightarrow> char" where
  "lower_char c =
     (case map_of (zip ''ABCDEFGHIJKLMNOPQRSTUVWXYZ'' ''abcdefghijklmnopqrstuvwxyz'') c of
        None \<Rightarrow> c
      | Some d \<Rightarrow> d)"

definition lower :: "string \<Rightarrow> string" where
  "lower s = map lower_char s"

text \<open>
  The loop of \<open>confirm\<close> over the lines still to be typed: each round writes the prompt
  and reads a line; \<open>input\<close> raises \<open>EOFError\<close> when no line is left.
\<close>

fun confirm_loop ::
  "string \<Rightarrow> string list \<Rightarrow> string list \<Rightarrow> (error + bool) \<times> string list \<times> string list" where
  "confirm_loop msg [] out = (Inl EOFError, [], out @ [msg])"
| "confirm_loop msg (confirm_input # ins) out =
     (if lower confirm_input \<in> set [''y'', ''yes''] then (Inr True, ins, out @ [msg])
      else if lower confirm_input \<in> set [''n'', ''no''] then (Inr False, ins, out @ [msg])
      else confirm_loop msg ins
             (out @ [msg, confirm_input @ '' is invalid.  Please use '' @ [squote] @ ''yes''
                @ [squote] @ '' or '' @ [squote] @ ''no'' @ [squote]]))"

definition confirm :: "string \<Rightarrow> world \<Rightarrow> (error + bool) \<times> world" where
  "confirm msg w =
     (case confirm_loop msg (stdin w) (stdout w) of
        (r, ins, out) \<Rightarrow> (r, w\<lparr>stdin := ins, stdout := out\<rparr>))"

section \<open>\<open>add_to_cmake\<close>\<close>

definition marker :: string where
  "marker = ''add_fprime_subdirectory''"

text \<open>
  \<open>while "add_fprime_subdirectory" not in lines[index]: index += 1\<close>; reading
  \<open>lines[index]\<close> past the end raises \<open>IndexError\<close>.
\<close>

function scan_to_marker :: "string list \<Rightarrow> nat \<Rightarrow> error + nat" where
  "scan_to_marker lines index =
     (if length lines \<le> index then Inl IndexError
      else if \<not> str_in marker (lines ! index) then scan_to_marker lines (index + 1)
      else Inr index)"
  by pat_completeness auto
termination
  by (relation "measure (\<lambda>(lines, index). length lines - index)") auto

text \<open>\<open>while "add_fprime_subdirectory" in lines[index]: index += 1\<close>.\<close>

function scan_past_marker :: "string list \<Rightarrow> nat \<Rightarrow> error + nat" where
  "scan_past_marker lines index =
     (if length lines \<le> index then Inl IndexError
      else if str_in marker (lines ! index) then scan_past_marker lines (index + 1)
      else Inr index)"
  by pat_completeness auto
termination
  by (relation "measure (\<lambda>(lines, index). length lines - index)") auto

text \<open>\<open>lines.insert(index, x)\<close> for an index that is not negative.\<close>

definition list_insert :: "nat \<Rightarrow> 'a \<Rightarrow> 'a list \<Rightarrow> 'a list" where
  "list_insert index x xs = take index xs @ x # drop index xs"

text \<open>The directive line for a component path (the string form of \<open>comp_path\<close>).\<close>

definition addition :: "string \<Rightarrow> string" where
  "addition comp_path =
     ''add_fprime_subdirectory('' @ [dquote] @ ''${CMAKE_CURRENT_LIST_DIR}/'' @ comp_path
       @ ''/'' @ [dquote] @ '')'' @ [LF]"

definition confirm_msg :: "string \<Rightarrow> string \<Rightarrow> string" where
  "confirm_msg comp_path list_file =
     ''Add component '' @ comp_path @ '' to '' @ list_file
       @ '' at end of file before topology inclusion??''"

definition found_msg :: "string \<Rightarrow> string" where
  "found_msg list_file =
     ''[INFO] Found CMakeLists.txt at '' @ [squote] @ list_file @ [squote]"

definition add_to_cmake :: "string \<Rightarrow> string \<Rightarrow> world \<Rightarrow> (error + bool) \<times> world" where
  "add_to_cmake list_file comp_path w0 =
     (let w1 = print_line (found_msg list_file) w0 in
      case readlines list_file w1 of
        Inl e \<Rightarrow> (Inl e, w1)
      | Inr lines \<Rightarrow>
          (case scan_to_marker lines 0 of
             Inl e \<Rightarrow> (Inl e, w1)
           | Inr first \<Rightarrow>
               (case scan_past_marker lines first of
                  Inl e \<Rightarrow> (Inl e, w1)
                | Inr index \<Rightarrow>
                    (case confirm (confirm_msg comp_path list_file) w1 of
                       (Inl e, w2) \<Rightarrow> (Inl e, w2)
                     | (Inr False, w2) \<Rightarrow> (Inr False, w2)
                     | (Inr True, w2) \<Rightarrow>
                         if addition comp_path \<in> set lines
                         then (Inr True,
                               print_line ''Component already added to CMakeLists.txt'' w2)
                         else (Inr True,
                               write_file list_file
                                 (concat (list_insert index (addition comp_path) lines))
                                 w2)))))"

section \<open>\<open>run_impl\<close>\<close>

text \<open>
  The collaborators of \<open>run_impl\<close> that are not part of this module: \<open>glob.glob\<close> on a
  pattern (its order is the directory's), and the build's \<open>load\<close> and \<open>execute\<close> for the
  unit's path, which act on the world and may raise.
\<close>

record collaborators =
  glob :: "string \<Rightarrow> world \<Rightarrow> string list"
  build_load :: "string \<Rightarrow> world \<Rightarrow> error option \<times> world"
  build_execute :: "string \<Rightarrow> world \<Rightarrow> error option \<times> world"

text \<open>
  The choice of the destinations: \<open>cpp_files.sort(key=len)\<close> is a stable sort by length;
  nothing is chosen when either list is empty.
\<close>

definition select_destinations :: "string list \<Rightarrow> string list \<Rightarrow> (string \<times> string) option" where
  "select_destinations hpp_files cpp_files0 =
     (let cpp_files = sort_key length cpp_files0 in
      case (hpp_files, cpp_files) of
        ([], _) \<Rightarrow> None
      | (_, []) \<Rightarrow> None
      | (hpp_dest # _, cpp_first # _) \<Rightarrow>
          (let common = filter (str_in ''Common'') cpp_files in
           Some (hpp_dest, (case common of [] \<Rightarrow> cpp_first | c # _ \<Rightarrow> c))))"

text \<open>
  The body of the copy loop: read the stub, drop its first 11 lines, append the rest to
  the destination.
\<close>

definition copy_without_header :: "string \<Rightarrow> string \<Rightarrow> world \<Rightarrow> error option \<times> world" where
  "copy_without_header src dest w =
     (case readlines src w of
        Inl e \<Rightarrow> (Some e, w)
      | Inr lines \<Rightarrow> (None, append_file dest (concat (drop 11 lines)) w))"

fun copy_all :: "(string \<times> string) list \<Rightarrow> world \<Rightarrow> error option \<times> world" where
  "copy_all [] w = (None, w)"
| "copy_all ((src, dest) # rest) w =
     (case copy_without_header src dest w of
        (Some e, w1) \<Rightarrow> (Some e, w1)
      | (None, w1) \<Rightarrow> copy_all rest w1)"

fun remove_all :: "string list \<Rightarrow> world \<Rightarrow> error option \<times> world" where
  "remove_all [] w = (None, w)"
| "remove_all (removal # rest) w =
     (case remove_file removal w of
        (Some e, w1) \<Rightarrow> (Some e, w1)
      | (None, w1) \<Rightarrow> remove_all rest w1)"

text \<open>The merge step: the copy loop, then the removals, then \<open>return True\<close>.\<close>

definition merge_templates ::
  "string \<Rightarrow> string \<Rightarrow> string \<Rightarrow> string \<Rightarrow> world \<Rightarrow> (error + bool) \<times> world" where
  "merge_templates hpp_src hpp_dest cpp_src cpp_dest w =
     (case copy_all [(hpp_src, hpp_dest), (cpp_src, cpp_dest)] w of
        (Some e, w1) \<Rightarrow> (Inl e, w1)
      | (None, w1) \<Rightarrow>
          (case remove_all [hpp_src, cpp_src] w1 of
             (Some e, w2) \<Rightarrow> (Inl e, w2)
           | (None, w2) \<Rightarrow> (Inr True, w2)))"

definition run_impl :: "collaborators \<Rightarrow> string \<Rightarrow> world \<Rightarrow> (error + bool) \<times> world" where
  "run_impl env path w0 =
     (case build_load env path w0 of
        (Some e, w1) \<Rightarrow> (Inl e, w1)
      | (None, w1) \<Rightarrow>
          (case select_destinations (glob env (path @ ''/*.hpp'') w1)
                  (glob env (path @ ''/*.cpp'') w1) of
             None \<Rightarrow>
               (Inr False,
                print_line
                  ''[WARNING] Failed to find .cpp and .hpp destination files for implementation.''
                  w1)
           | Some (hpp_dest, cpp_dest) \<Rightarrow>
               (case confirm (''Generate implementations and merge into '' @ hpp_dest
                                @ '' and '' @ cpp_dest @ ''?'') w1 of
                  (Inl e, w2) \<Rightarrow> (Inl e, w2)
                | (Inr False, w2) \<Rightarrow> (Inr False, w2)
                | (Inr True, w2) \<Rightarrow>
                    (case build_execute env path w2 of
                       (Some e, w3) \<Rightarrow> (Inl e, w3)
                     | (None, w3) \<Rightarrow>
                         (case (glob env (path @ ''/*.hpp-template'') w3,
                                glob env (path @ ''/*.cpp-template'') w3) of
                            (hpp_src # _, cpp_src # _) \<Rightarrow>
                              merge_templates hpp_src hpp_dest cpp_src cpp_dest w3
                          | _ \<Rightarrow>
                              (Inr False,
                               print_line
                                 ''[WARNING] Failed to find generated .cpp-template or .hpp-template files''
                                 w3))))))"

section \<open>\<open>find_nearest_cmake_lists\<close>\<close>

text \<open>
  A \<open>Path\<close> is the list of its components below the root; the root is the empty list.
  \<open>parent\<close> drops the last component and the root is its own parent, \<open>/\<close> adds a
  component, and two paths are equal when their components are. Which paths are files is
  a parameter, \<open>is_file\<close>.
\<close>

type_synonym path = "string list"

definition parent :: "path \<Rightarrow> path" where
  "parent p = butlast p"

definition cmake_lists :: "path \<Rightarrow> path" where
  "cmake_lists p = p @ [''CMakeLists.txt'']"

text \<open>
  The \<open>while\<close> loop of one pass, with \<open>proj_root\<close> as the source tests it. The loop need
  not end: the result \<open>None\<close> is a run that never returns, \<open>Some None\<close> is the loop left
  with nothing found, \<open>Some (Some f)\<close> is \<open>return f\<close>.
\<close>

partial_function (option) search_up ::
  "(path \<Rightarrow> bool) \<Rightarrow> path option \<Rightarrow> path \<Rightarrow> path option option" where
  [code]: "search_up is_file proj_root test_path =
     (case proj_root of
        None \<Rightarrow> Some None
      | Some root \<Rightarrow>
          if test_path \<noteq> parent root then
            (let cmake_list_file = cmake_lists test_path in
             if is_file cmake_list_file then Some (Some cmake_list_file)
             else search_up is_file proj_root (parent test_path))
          else Some None)"

text \<open>
  The \<open>for\<close> loop over the pairs \<open>(test_path, end_path)\<close>; the body never reads
  \<open>end_path\<close>. After the last pair comes \<open>return None\<close>.
\<close>

fun passes ::
  "(path \<Rightarrow> bool) \<Rightarrow> path option \<Rightarrow> (path \<times> path) list \<Rightarrow> path option option" where
  "passes is_file proj_root [] = Some None"
| "passes is_file proj_root ((test_path, end_path) # rest) =
     (case search_up is_file proj_root test_path of
        None \<Rightarrow> None
      | Some (Some found) \<Rightarrow> Some (Some found)
      | Some None \<Rightarrow> passes is_file proj_root rest)"

text \<open>
  The list of pairs is built before the loop starts, and building it reads
  \<open>proj_root.parent\<close>: on \<open>None\<close> that raises \<open>AttributeError\<close>. The result is \<open>None\<close> for
  a run that never returns, else the exception or the returned value.
\<close>

definition find_nearest_cmake_lists ::
  "(path \<Rightarrow> bool) \<Rightarrow> path \<Rightarrow> path \<Rightarrow> path option \<Rightarrow> (error + path option) option" where
  "find_nearest_cmake_lists is_file component_dir deployment proj_root =
     (let test_path = parent component_dir in
      case proj_root of
        None \<Rightarrow> Some (Inl AttributeError)
      | Some root \<Rightarrow>
          map_option Inr
            (passes is_file proj_root [(test_path, root), (deployment, parent root)]))"

section \<open>\<open>get_port_input\<close>\<close>

record port_values =
  port_name :: string
  short_description :: string
  dir_name :: string
  arg_number :: int

text \<open>\<open>input(prompt)\<close>: the prompt is written, a line is read.\<close>

definition input_line :: "string \<Rightarrow> world \<Rightarrow> (error + string) \<times> world" where
  "input_line prompt w =
     (case stdin w of
        [] \<Rightarrow> (Inl EOFError, w\<lparr>stdout := stdout w @ [prompt]\<rparr>)
      | l # ins \<Rightarrow> (Inr l, w\<lparr>stdin := ins, stdout := stdout w @ [prompt]\<rparr>))"

text \<open>
  The two loops that ask for a name until \<open>is_valid_name\<close> accepts it, over the lines
  still to be typed.
\<close>

fun name_loop ::
  "string \<Rightarrow> string \<Rightarrow> string list \<Rightarrow> string list \<Rightarrow> (error + string) \<times> string list \<times> string list"
  where
  "name_loop prompt complaint [] out = (Inl EOFError, [], out @ [prompt])"
| "name_loop prompt complaint (name # ins) out =
     (let char = is_valid_name name in
      if char \<noteq> ''valid''
      then name_loop prompt complaint ins
             (out @ [prompt, [squote] @ char @ [squote] @ complaint])
      else (Inr name, ins, out @ [prompt]))"

definition read_name :: "string \<Rightarrow> string \<Rightarrow> world \<Rightarrow> (error + string) \<times> world" where
  "read_name prompt complaint w =
     (case name_loop prompt complaint (stdin w) (stdout w) of
        (r, ins, out) \<Rightarrow> (r, w\<lparr>stdin := ins, stdout := out\<rparr>))"

text \<open>\<open>str.isnumeric\<close> and \<open>int\<close> on ASCII text.\<close>

definition isnumeric :: "string \<Rightarrow> bool" where
  "isnumeric s = (s \<noteq> [] \<and> list_all (\<lambda>c. c \<in> set ''0123456789'') s)"

definition digit_value :: "char \<Rightarrow> int" where
  "digit_value c =
     (case map_of (zip ''0123456789'' [0, 1, 2, 3, 4, 5, 6, 7, 8, 9]) c of
        None \<Rightarrow> 0
      | Some d \<Rightarrow> d)"

definition int_of_str :: "string \<Rightarrow> int" where
  "int_of_str s = foldl (\<lambda>n c. 10 * n + digit_value c) 0 s"

text \<open>
  The branch on the typed number: the local \<open>arg_number\<close> is bound on the first and on
  the last branch only (\<open>None\<close> is the unbound local).
\<close>

definition parse_arg_number :: "string \<Rightarrow> world \<Rightarrow> int option \<times> world" where
  "parse_arg_number string_arg_number w =
     (if string_arg_number = [] then (Some 1, w)
      else if \<not> isnumeric string_arg_number
      then (None, print_line ''[ERROR] You have not entered a valid number'' w)
      else (Some (int_of_str string_arg_number), w))"

definition or_default :: "string \<Rightarrow> string \<Rightarrow> string" where
  "or_default v d = (if v = [] then d else v)"

definition get_port_input :: "world \<Rightarrow> (error + port_values) \<times> world" where
  "get_port_input w0 =
     (case read_name ''Port Name [ExamplePort]: ''
             '' is not a valid character. Enter a new port name:'' w0 of
        (Inl e, w1) \<Rightarrow> (Inl e, w1)
      | (Inr pname, w1) \<Rightarrow>
          (case input_line ''Short Description [Example usage of port]: '' w1 of
             (Inl e, w2) \<Rightarrow> (Inl e, w2)
           | (Inr descr, w2) \<Rightarrow>
               (case read_name ''Directory Name [example_directory]: ''
                       '' is not a valid character. Enter a new directory name:'' w2 of
                  (Inl e, w3) \<Rightarrow> (Inl e, w3)
                | (Inr dname, w3) \<Rightarrow>
                    (case input_line ''Number of arguments [1]: '' w3 of
                       (Inl e, w4) \<Rightarrow> (Inl e, w4)
                     | (Inr string_arg_number, w4) \<Rightarrow>
                         (case parse_arg_number string_arg_number w4 of
                            (None, w5) \<Rightarrow> (Inl UnboundLocalError, w5)
                          | (Some n, w5) \<Rightarrow>
                              (Inr \<lparr>port_name = or_default pname ''ExamplePort'',
                                    short_description = or_default descr ''Example usage of port'',
                                    dir_name = or_default dname ''example_directory'',
                                    arg_number = n\<rparr>,
                               w5))))))"

section \<open>Well-formed line lists and sample inputs\<close>

text \<open>
  What \<open>split_lines\<close> returns: no line is empty, a line holds \<open>LF\<close> at its end only, and
  every line but the last ends with \<open>LF\<close>.
\<close>

definition line_shaped :: "string \<Rightarrow> bool" where
  "line_shaped l \<longleftrightarrow> l \<noteq> [] \<and> LF \<notin> set (butlast l)"

definition lines_shaped :: "string list \<Rightarrow> bool" where
  "lines_shaped ls \<longleftrightarrow> (\<forall>l\<in>set ls. line_shaped l) \<and> (\<forall>l\<in>set (butlast ls). last l = LF)"

text \<open>A world with one build-list file, for the concrete runs below.\<close>

definition sample_world :: "string \<Rightarrow> string list \<Rightarrow> world" where
  "sample_world txt ins = \<lparr>files = [''CMakeLists.txt'' \<mapsto> txt], stdin = ins, stdout = []\<rparr>"

text \<open>
  Build-list texts: one without the marker, one with a directive before the topology
  line, one that ends with the directive for \<open>Comp\<close>, and one that holds that directive
  before the topology line.
\<close>

definition no_marker_text :: string where
  "no_marker_text = ''project(Ref)'' @ [LF] @ ''include(Top)'' @ [LF]"

definition one_directive_text :: string where
  "one_directive_text =
     ''project(Ref)'' @ [LF] @ ''add_fprime_subdirectory(A)'' @ [LF] @ ''include(Top)'' @ [LF]"

definition directive_last_text :: string where
  "directive_last_text = ''project(Ref)'' @ [LF] @ addition ''Comp''"

definition directive_present_text :: string where
  "directive_present_text = ''project(Ref)'' @ [LF] @ addition ''Comp'' @ ''include(Top)'' @ [LF]"

text \<open>A component path that holds a line break.\<close>

definition line_break_path :: string where
  "line_break_path = ''a'' @ [LF] @ ''b''"

text \<open>
  Two stubs with a header of 11 lines, and a unit directory that holds them beside an
  empty \<open>.hpp\<close> destination and a \<open>.cpp\<close> destination of one line.
\<close>

definition hpp_stub_text :: string where
  "hpp_stub_text =
     concat (replicate 11 (''// header'' @ [LF])) @ ''void f();'' @ [LF] @ ''void g();'' @ [LF]"

definition cpp_stub_text :: string where
  "cpp_stub_text = concat (replicate 11 (''// header'' @ [LF])) @ ''void f() {}'' @ [LF]"

definition merge_world :: world where
  "merge_world =
     \<lparr>files = [''C/C.hpp-template'' \<mapsto> hpp_stub_text, ''C/C.cpp-template'' \<mapsto> cpp_stub_text,
               ''C/C.hpp'' \<mapsto> [], ''C/C.cpp'' \<mapsto> ''// mine'' @ [LF]],
      stdin = [], stdout = []\<rparr>"

section \<open>Properties of the name check\<close>

lemma str_in_single: "str_in [c] w \<longleftrightarrow> c \<in> set w"
  by (induction w) auto

lemma first_invalid_singletons:
  "first_invalid (map (\<lambda>c. [c]) cs) w =
     (case find (\<lambda>c. c \<in> set w) cs of None \<Rightarrow> ''valid'' | Some c \<Rightarrow> [c])"
  by (induction cs) (simp_all add: str_in_single)

lemma invalid_characters_order: "invalid_characters = map (\<lambda>c. [c]) scan_order"
  by (simp add: invalid_characters_def scan_order_def)

text \<open>
  C5 (as amended). For every input string, \<open>is_valid_name\<close> returns \<open>valid\<close> when the
  string holds no disallowed character, and otherwise the first disallowed character
  found scanning in the order of the source, \<open>scan_order\<close>, in which the space is scanned
  twelfth, after the question mark and before the dollar; the three examples of the
  specification hold.
\<close>

theorem is_valid_name_scan_order:
  "is_valid_name word =
     (case find (\<lambda>c. c \<in> set word) scan_order of None \<Rightarrow> ''valid'' | Some c \<Rightarrow> [c])
   \<and> is_valid_name ''good_name'' = ''valid''
   \<and> is_valid_name ''bad name'' = '' ''
   \<and> is_valid_name ''a/b'' = ''/''"
proof -
  have "is_valid_name w =
     (case find (\<lambda>c. c \<in> set w) scan_order of None \<Rightarrow> ''valid'' | Some c \<Rightarrow> [c])" for w
    by (simp only: is_valid_name_def invalid_characters_order first_invalid_singletons)
  then show ?thesis
    by (simp add: scan_order_def backslash_def squote_def dquote_def backtick_def)
qed

text \<open>
  C5 as stated has the space scanned last: on \<open>a $\<close> the source answers with the space,
  the stated order with the dollar.
\<close>

theorem is_valid_name_space_last_counterexample:
  "is_valid_name ''a $'' = '' '' \<and> spec_is_valid_name ''a $'' = ''$''"
  by (simp add: is_valid_name_def invalid_characters_def spec_is_valid_name_def
      spec_invalid_characters_def backslash_def squote_def dquote_def backtick_def)

section \<open>Properties of the two scans\<close>

declare scan_to_marker.simps [simp del] scan_past_marker.simps [simp del]

lemma scan_to_marker_none:
  "\<forall>l\<in>set lines. \<not> str_in marker l \<Longrightarrow> scan_to_marker lines i = Inl IndexError"
proof (induction lines i rule: scan_to_marker.induct)
  case (1 lines index)
  show ?case
  proof (cases "length lines \<le> index")
    case True
    then show ?thesis by (simp add: scan_to_marker.simps)
  next
    case False
    then have "\<not> str_in marker (lines ! index)" using 1(2) by simp
    with False 1 show ?thesis by (subst scan_to_marker.simps) simp
  qed
qed

lemma scan_to_marker_skip:
  "\<forall>l\<in>set pre. \<not> str_in marker l \<Longrightarrow> str_in marker l \<Longrightarrow> i \<le> length pre \<Longrightarrow>
   scan_to_marker (pre @ l # rest) i = Inr (length pre)"
proof (induction "length pre - i" arbitrary: i)
  case 0
  then have "i = length pre" by simp
  with 0 show ?case by (subst scan_to_marker.simps) simp
next
  case (Suc n)
  then have lt: "i < length pre" by simp
  then have "\<not> str_in marker ((pre @ l # rest) ! i)" using Suc.prems(1) by (simp add: nth_append)
  moreover have "scan_to_marker (pre @ l # rest) (i + 1) = Inr (length pre)"
    using Suc lt by (intro Suc.hyps(1)) auto
  ultimately show ?case using lt by (subst scan_to_marker.simps) simp
qed

lemma scan_past_marker_skip:
  "\<forall>l\<in>set block. str_in marker l \<Longrightarrow> \<not> str_in marker nxt \<Longrightarrow> i \<le> length block \<Longrightarrow>
   scan_past_marker (pre @ block @ nxt # rest) (length pre + i) = Inr (length pre + length block)"
proof (induction "length block - i" arbitrary: i)
  case 0
  then have "i = length block" by simp
  with 0 show ?case by (subst scan_past_marker.simps) (simp add: nth_append)
next
  case (Suc n)
  then have lt: "i < length block" by simp
  then have "str_in marker ((pre @ block @ nxt # rest) ! (length pre + i))"
    using Suc.prems(1) by (simp add: nth_append)
  moreover have "scan_past_marker (pre @ block @ nxt # rest) (length pre + (i + 1)) = Inr (length pre + length block)"
    using Suc lt by (intro Suc.hyps(1)) auto
  ultimately show ?case using lt by (subst scan_past_marker.simps) (simp add: add.assoc)
qed

lemma scan_block:
  assumes "\<forall>l\<in>set pre. \<not> str_in marker l" "block \<noteq> []" "\<forall>l\<in>set block. str_in marker l"
    "\<not> str_in marker nxt"
  shows "scan_to_marker (pre @ block @ nxt # rest) 0 = Inr (length pre)"
    and "scan_past_marker (pre @ block @ nxt # rest) (length pre) = Inr (length pre + length block)"
proof -
  obtain b bs where b: "block = b # bs" using assms(2) by (cases block) auto
  show "scan_to_marker (pre @ block @ nxt # rest) 0 = Inr (length pre)"
    using scan_to_marker_skip [of pre b 0 "bs @ nxt # rest"] assms b by simp
  show "scan_past_marker (pre @ block @ nxt # rest) (length pre) = Inr (length pre + length block)"
    using scan_past_marker_skip [of block nxt 0 pre rest] assms by simp
qed

section \<open>Properties of reading and writing lines\<close>

lemma concat_split_lines: "concat (split_lines s) = s"
  by (induction s) (auto split: list.splits)

lemma split_lines_terminated:
  "LF \<notin> set a \<Longrightarrow> split_lines (a @ LF # s) = (a @ [LF]) # split_lines s"
  by (induction a) auto

lemma split_lines_unterminated:
  "LF \<notin> set a \<Longrightarrow> a \<noteq> [] \<Longrightarrow> split_lines a = [a]"
proof (induction a)
  case Nil
  then show ?case by simp
next
  case (Cons c a)
  then show ?case by (cases a) auto
qed

lemma split_lines_Nil: "split_lines s = [] \<longleftrightarrow> s = []"
  by (cases s) (auto split: list.splits)

lemma split_lines_shaped: "lines_shaped (split_lines s)"
proof (induction s)
  case Nil
  then show ?case by (simp add: lines_shaped_def)
next
  case (Cons c s)
  show ?case
  proof (cases "c = LF")
    case True
    with Cons show ?thesis by (auto simp: lines_shaped_def line_shaped_def)
  next
    case False
    show ?thesis
    proof (cases "split_lines s")
      case Nil
      with False show ?thesis by (simp add: lines_shaped_def line_shaped_def)
    next
      case (Cons l ls)
      with \<open>lines_shaped (split_lines s)\<close> False show ?thesis
        by (auto simp: lines_shaped_def line_shaped_def split: if_splits)
    qed
  qed
qed

lemma line_shaped_cases:
  assumes "line_shaped l"
  obtains a where "l = a @ [LF]" "LF \<notin> set a" | "LF \<notin> set l" "l \<noteq> []"
proof (cases l rule: rev_cases)
  case Nil
  with assms show ?thesis by (simp add: line_shaped_def)
next
  case (snoc ys y)
  with assms have "LF \<notin> set ys" by (simp add: line_shaped_def)
  with snoc that show ?thesis by (cases "y = LF") auto
qed

lemma split_lines_concat: "lines_shaped ls \<Longrightarrow> split_lines (concat ls) = ls"
proof (induction ls)
  case Nil
  then show ?case by simp
next
  case (Cons l ls)
  have shaped: "line_shaped l" using Cons.prems by (simp add: lines_shaped_def)
  show ?case
  proof (cases "ls = []")
    case True
    from shaped show ?thesis
    proof (cases rule: line_shaped_cases)
      case (1 a)
      then show ?thesis using True split_lines_terminated [of a "[]"] by simp
    next
      case 2
      then show ?thesis using True by (simp add: split_lines_unterminated)
    qed
  next
    case False
    then have fin: "last l = LF" and rest: "lines_shaped ls"
      using Cons.prems by (auto simp: lines_shaped_def)
    from shaped obtain a where a: "l = a @ [LF]" "LF \<notin> set a"
    proof (cases rule: line_shaped_cases)
      case (1 a)
      then show ?thesis using that by blast
    next
      case 2
      then have "last l \<in> set l" by simp
      with 2 fin show ?thesis by simp
    qed
    have "split_lines (a @ LF # concat ls) = (a @ [LF]) # split_lines (concat ls)"
      using a(2) by (rule split_lines_terminated)
    then show ?thesis using Cons.IH [OF rest] a(1) by simp
  qed
qed

lemma universal_newlines_no_CR: "CR \<notin> set (universal_newlines s)"
  by (induction s rule: universal_newlines.induct) (auto simp: LF_def CR_def)

lemma universal_newlines_id: "CR \<notin> set s \<Longrightarrow> universal_newlines s = s"
  by (induction s rule: universal_newlines.induct) auto

lemma lines_shaped_insert:
  assumes "lines_shaped ls" "line_shaped x" "last x = LF" "i < length ls"
  shows "lines_shaped (list_insert i x ls)"
proof -
  have a: "\<forall>l\<in>set ls. line_shaped l" and b: "\<forall>l\<in>set (butlast ls). last l = LF"
    using assms(1) by (simp_all add: lines_shaped_def)
  have d: "drop i ls \<noteq> []" using assms(4) by simp
  have "i \<le> length ls - 1" using assms(4) by simp
  then have "set (take i ls) \<subseteq> set (butlast ls)"
    by (simp add: butlast_conv_take set_take_subset_set_take)
  moreover have "set (butlast (drop i ls)) \<subseteq> set (butlast ls)"
    by (metis butlast_drop set_drop_subset)
  moreover have "set (take i ls) \<subseteq> set ls" "set (drop i ls) \<subseteq> set ls"
    by (simp_all add: set_take_subset set_drop_subset)
  ultimately show ?thesis
    using a b d assms(2,3) 
    by (auto simp: lines_shaped_def list_insert_def butlast_append)
qed

section \<open>Properties of \<open>add_to_cmake\<close>\<close>

lemma confirm_files [simp]: "files (snd (confirm msg w)) = files w"
  by (simp add: confirm_def split: prod.splits)

lemma readlines_print_line [simp]: "readlines p (print_line s w) = readlines p w"
  by (simp add: readlines_def print_line_def)

lemma files_print_line [simp]: "files (print_line s w) = files w"
  by (simp add: print_line_def)

lemma stdin_print_line [simp]: "stdin (print_line s w) = stdin w"
  by (simp add: print_line_def)

lemma add_to_cmake_scanned:
  assumes "files w p = Some txt"
    and "scan_to_marker (split_lines (universal_newlines txt)) 0 = Inr i"
    and "scan_past_marker (split_lines (universal_newlines txt)) i = Inr j"
  shows "add_to_cmake p c w =
     (case confirm (confirm_msg c p) (print_line (found_msg p) w) of
        (Inl e, w2) \<Rightarrow> (Inl e, w2)
      | (Inr False, w2) \<Rightarrow> (Inr False, w2)
      | (Inr True, w2) \<Rightarrow>
          if addition c \<in> set (split_lines (universal_newlines txt))
          then (Inr True, print_line ''Component already added to CMakeLists.txt'' w2)
          else (Inr True,
                write_file p
                  (concat (list_insert j (addition c) (split_lines (universal_newlines txt))))
                  w2))"
  using assms by (simp add: add_to_cmake_def readlines_def)

lemma list_insert_after_block:
  "list_insert (length pre + length block) x (pre @ block @ rest) = pre @ block @ x # rest"
  by (simp add: list_insert_def)

lemma files_write_file [simp]: "files (write_file p txt w) = (files w)(p \<mapsto> txt)"
  by (simp add: write_file_def)

lemma confirm_cases:
  obtains (err) e w2 where "confirm msg w = (Inl e, w2)"
  | (yes) w2 where "confirm msg w = (Inr True, w2)"
  | (no) w2 where "confirm msg w = (Inr False, w2)"
proof (cases "confirm msg w")
  case (Pair r w2)
  then show ?thesis using that by (cases r) auto
qed

lemma addition_marker: "str_in marker (addition c)"
  by (simp add: addition_def marker_def)

lemma addition_line_shaped: "LF \<notin> set c \<Longrightarrow> line_shaped (addition c)"
  by (simp add: addition_def line_shaped_def butlast_append LF_def dquote_def)

lemma addition_last: "last (addition c) = LF"
  by (simp add: addition_def)

lemma addition_no_CR: "CR \<notin> set c \<Longrightarrow> CR \<notin> set (addition c)"
  by (simp add: addition_def LF_def CR_def dquote_def)

lemma readlines_inserted:
  assumes "LF \<notin> set c" "CR \<notin> set c" "j < length (split_lines (universal_newlines txt))"
    and "files w p = Some (concat (list_insert j (addition c) (split_lines (universal_newlines txt))))"
  shows "readlines p w = Inr (list_insert j (addition c) (split_lines (universal_newlines txt)))"
proof -
  let ?ls = "split_lines (universal_newlines txt)"
  let ?new = "list_insert j (addition c) ?ls"
  have "CR \<notin> set (concat ?ls)"
    by (simp only: concat_split_lines universal_newlines_no_CR not_False_eq_True)
  then have "\<forall>l\<in>set ?ls. CR \<notin> set l" by auto
  then have "\<forall>l\<in>set ?new. CR \<notin> set l"
    using addition_no_CR [OF assms(2)]
    by (auto simp: list_insert_def dest: in_set_takeD in_set_dropD)
  then have "CR \<notin> set (concat ?new)" by auto
  then have "universal_newlines (concat ?new) = concat ?new"
    by (rule universal_newlines_id)
  moreover have "lines_shaped ?new"
    using split_lines_shaped addition_line_shaped [OF assms(1)] addition_last assms(3)
    by (rule lines_shaped_insert)
  ultimately show ?thesis
    using assms(4) by (simp add: readlines_def split_lines_concat)
qed

text \<open>
  C6. When the marker occurs on no line of the build-list file, \<open>add_to_cmake\<close> raises
  (\<open>IndexError\<close>, from the first scan) instead of completing: no file is changed, and no
  confirmation is asked.
\<close>

theorem add_to_cmake_no_marker:
  assumes "files w list_file = Some txt"
    and "\<forall>l\<in>set (split_lines (universal_newlines txt)). \<not> str_in marker l"
  shows "fst (add_to_cmake list_file comp_path w) = Inl IndexError
     \<and> files (snd (add_to_cmake list_file comp_path w)) = files w
     \<and> stdin (snd (add_to_cmake list_file comp_path w)) = stdin w"
proof -
  have "readlines list_file w = Inr (split_lines (universal_newlines txt))"
    using assms(1) by (simp add: readlines_def)
  moreover have "scan_to_marker (split_lines (universal_newlines txt)) 0 = Inl IndexError"
    using assms(2) by (rule scan_to_marker_none)
  ultimately show ?thesis
    by (simp add: add_to_cmake_def)
qed

theorem add_to_cmake_no_marker_witness:
  "files (sample_world no_marker_text [''yes'']) ''CMakeLists.txt'' = Some no_marker_text
   \<and> split_lines (universal_newlines no_marker_text)
       = [''project(Ref)'' @ [LF], ''include(Top)'' @ [LF]]
   \<and> \<not> str_in marker (''project(Ref)'' @ [LF])
   \<and> \<not> str_in marker (''include(Top)'' @ [LF])
   \<and> fst (add_to_cmake ''CMakeLists.txt'' ''Comp'' (sample_world no_marker_text [''yes'']))
       = Inl IndexError
   \<and> files (snd (add_to_cmake ''CMakeLists.txt'' ''Comp'' (sample_world no_marker_text [''yes''])))
       = files (sample_world no_marker_text [''yes''])
   \<and> stdin (snd (add_to_cmake ''CMakeLists.txt'' ''Comp'' (sample_world no_marker_text [''yes''])))
       = [''yes'']"
proof -
  let ?w = "sample_world no_marker_text [''yes'']"
  have f: "files ?w ''CMakeLists.txt'' = Some no_marker_text"
    by (simp add: sample_world_def)
  have l: "split_lines (universal_newlines no_marker_text)
      = [''project(Ref)'' @ [LF], ''include(Top)'' @ [LF]]"
    by (simp add: no_marker_text_def LF_def CR_def)
  have m: "\<forall>l\<in>set (split_lines (universal_newlines no_marker_text)). \<not> str_in marker l"
    unfolding l by (simp add: marker_def LF_def)
  have s: "stdin ?w = [''yes'']" by (simp add: sample_world_def)
  have m': "\<not> str_in marker (''project(Ref)'' @ [LF])" "\<not> str_in marker (''include(Top)'' @ [LF])"
    by (simp_all add: marker_def LF_def)
  show ?thesis
    using add_to_cmake_no_marker [OF f m, of "''Comp''"] f l m' s by simp
qed

text \<open>
  C1. When the lines of the build-list file are a part without the marker, a block of
  marker lines that is not empty, and then lines that start with one without the marker
  and hold the topology line, which does not match the marker either, and the directive
  is new and the confirmation is accepted, \<open>add_to_cmake\<close> returns \<open>True\<close> and writes the
  lines with the directive right after the block: it follows every directive of the
  block and precedes the topology line, and whatever followed the topology line still
  does, so a topology line that was last stays last. When the path holds no line break,
  reading the file back gives these lines.
\<close>

theorem add_to_cmake_inserts_after_block:
  assumes "files w list_file = Some txt"
    and "split_lines (universal_newlines txt) = pre @ block @ mid @ topo # post"
    and "\<forall>l\<in>set pre. \<not> str_in marker l"
    and "block \<noteq> []"
    and "\<forall>l\<in>set block. str_in marker l"
    and "\<not> str_in marker (hd (mid @ [topo]))"
    and "\<not> str_in marker topo"
    and "addition comp_path \<notin> set (pre @ block @ mid @ topo # post)"
    and "fst (confirm (confirm_msg comp_path list_file) (print_line (found_msg list_file) w))
           = Inr True"
  shows "fst (add_to_cmake list_file comp_path w) = Inr True
     \<and> files (snd (add_to_cmake list_file comp_path w))
         = (files w)(list_file \<mapsto> concat (pre @ block @ addition comp_path # mid @ topo # post))
     \<and> (LF \<notin> set comp_path \<and> CR \<notin> set comp_path \<longrightarrow>
          readlines list_file (snd (add_to_cmake list_file comp_path w))
            = Inr (pre @ block @ addition comp_path # mid @ topo # post))"
proof -
  let ?ls = "split_lines (universal_newlines txt)"
  let ?j = "length pre + length block"
  obtain nxt rest where nr: "mid @ topo # post = nxt # rest" "nxt = hd (mid @ [topo])"
    by (cases mid) auto
  have ls: "?ls = pre @ block @ nxt # rest" using assms(2) nr by simp
  have nm: "\<not> str_in marker nxt" using assms(6) nr by simp
  have s1: "scan_to_marker ?ls 0 = Inr (length pre)"
    unfolding ls using assms(3,4,5) nm by (rule scan_block)
  have s2: "scan_past_marker ?ls (length pre) = Inr ?j"
    unfolding ls using assms(3,4,5) nm by (rule scan_block)
  have ins: "list_insert ?j (addition comp_path) ?ls
      = pre @ block @ addition comp_path # mid @ topo # post"
    unfolding assms(2) by (rule list_insert_after_block)
  have new: "addition comp_path \<notin> set ?ls" using assms(2,8) by simp
  obtain w2 where c: "confirm (confirm_msg comp_path list_file) (print_line (found_msg list_file) w)
      = (Inr True, w2)"
    using assms(9) by (cases "confirm (confirm_msg comp_path list_file) (print_line (found_msg list_file) w)") auto
  have fw2: "files w2 = files w"
    using confirm_files [of "confirm_msg comp_path list_file" "print_line (found_msg list_file) w"] c
    by simp
  have run: "add_to_cmake list_file comp_path w
      = (Inr True, write_file list_file
           (concat (pre @ block @ addition comp_path # mid @ topo # post)) w2)"
    using add_to_cmake_scanned [OF assms(1) s1 s2, of comp_path] c new ins by simp
  have read: "readlines list_file (snd (add_to_cmake list_file comp_path w))
            = Inr (pre @ block @ addition comp_path # mid @ topo # post)"
    if "LF \<notin> set comp_path" "CR \<notin> set comp_path"
  proof -
    have "?j < length ?ls" unfolding assms(2) by simp
    moreover have "files (snd (add_to_cmake list_file comp_path w)) list_file
        = Some (concat (list_insert ?j (addition comp_path) ?ls))"
      using run ins by simp
    ultimately show ?thesis
      using readlines_inserted [OF that] ins by simp
  qed
  show ?thesis using run fw2 read by simp
qed

lemma one_directive_lines:
  "split_lines (universal_newlines one_directive_text)
     = [''project(Ref)'' @ [LF]] @ [''add_fprime_subdirectory(A)'' @ [LF]] @ [] @ (''include(Top)'' @ [LF]) # []"
  by (simp add: one_directive_text_def LF_def CR_def)

lemma confirm_yes:
  "stdin w = ''yes'' # ins \<Longrightarrow> fst (confirm msg w) = Inr True"
  by (simp add: confirm_def lower_def lower_char_def)

theorem add_to_cmake_inserts_after_block_witness:
  "files (sample_world one_directive_text [''yes'']) ''CMakeLists.txt'' = Some one_directive_text
   \<and> split_lines (universal_newlines one_directive_text)
       = [''project(Ref)'' @ [LF]] @ [''add_fprime_subdirectory(A)'' @ [LF]] @ []
           @ (''include(Top)'' @ [LF]) # []
   \<and> \<not> str_in marker (''project(Ref)'' @ [LF])
   \<and> str_in marker (''add_fprime_subdirectory(A)'' @ [LF])
   \<and> \<not> str_in marker (''include(Top)'' @ [LF])
   \<and> addition ''Comp'' \<notin> set (split_lines (universal_newlines one_directive_text))
   \<and> fst (confirm (confirm_msg ''Comp'' ''CMakeLists.txt'')
            (print_line (found_msg ''CMakeLists.txt'') (sample_world one_directive_text [''yes''])))
       = Inr True
   \<and> LF \<notin> set ''Comp'' \<and> CR \<notin> set ''Comp''
   \<and> fst (add_to_cmake ''CMakeLists.txt'' ''Comp'' (sample_world one_directive_text [''yes'']))
       = Inr True
   \<and> readlines ''CMakeLists.txt''
        (snd (add_to_cmake ''CMakeLists.txt'' ''Comp'' (sample_world one_directive_text [''yes''])))
       = Inr [''project(Ref)'' @ [LF], ''add_fprime_subdirectory(A)'' @ [LF], addition ''Comp'',
              ''include(Top)'' @ [LF]]"
proof -
  let ?w = "sample_world one_directive_text [''yes'']"
  have f: "files ?w ''CMakeLists.txt'' = Some one_directive_text"
    by (simp add: sample_world_def)
  note l = one_directive_lines
  have p: "\<forall>l\<in>set [''project(Ref)'' @ [LF]]. \<not> str_in marker l"
    by (simp add: marker_def LF_def)
  have b: "[''add_fprime_subdirectory(A)'' @ [LF]] \<noteq> []" by simp
  have bm: "\<forall>l\<in>set [''add_fprime_subdirectory(A)'' @ [LF]]. str_in marker l"
    by (simp add: marker_def LF_def)
  have t: "\<not> str_in marker (''include(Top)'' @ [LF])"
    by (simp add: marker_def LF_def)
  have h: "\<not> str_in marker (hd ([] @ [''include(Top)'' @ [LF]]))"
    using t by simp
  have n: "addition ''Comp'' \<notin> set ([''project(Ref)'' @ [LF]] @ [''add_fprime_subdirectory(A)'' @ [LF]] @ []
           @ (''include(Top)'' @ [LF]) # [])"
    by (simp add: addition_def)
  have c: "fst (confirm (confirm_msg ''Comp'' ''CMakeLists.txt'')
            (print_line (found_msg ''CMakeLists.txt'') ?w)) = Inr True"
    by (rule confirm_yes [where ins = "[]"]) (simp add: sample_world_def)
  have lf: "LF \<notin> set ''Comp''" "CR \<notin> set ''Comp''" by (simp_all add: LF_def CR_def)
  show ?thesis
    using add_to_cmake_inserts_after_block [OF f l p b bm h t n c] f l p bm t n c lf
    by simp
qed

section \<open>Idempotence of \<open>add_to_cmake\<close>\<close>

lemma scan_past_marker_bound: "scan_past_marker ls i = Inr j \<Longrightarrow> j < length ls"
proof (induction ls i rule: scan_past_marker.induct)
  case (1 lines index)
  from 1(2) show ?case
    by (subst (asm) scan_past_marker.simps) (auto split: if_splits intro: 1(1))
qed

lemma add_to_cmake_outcome:
  obtains (early) e where
      "\<And>v. readlines p v = readlines p w \<Longrightarrow>
         add_to_cmake p c v = (Inl e, print_line (found_msg p) v)"
  | (asked) body i j where "files w p = Some body"
      "scan_to_marker (split_lines (universal_newlines body)) 0 = Inr i"
      "scan_past_marker (split_lines (universal_newlines body)) i = Inr j"
proof (cases "files w p")
  case None
  then have "add_to_cmake p c v = (Inl FileNotFoundError, print_line (found_msg p) v)"
    if "readlines p v = readlines p w" for v
    using that by (simp add: add_to_cmake_def readlines_def)
  then show ?thesis by (rule early)
next
  case (Some body)
  let ?ls = "split_lines (universal_newlines body)"
  have r: "readlines p w = Inr ?ls" using Some by (simp add: readlines_def)
  show ?thesis
  proof (cases "scan_to_marker ?ls 0")
    case (Inl e)
    then have "add_to_cmake p c v = (Inl e, print_line (found_msg p) v)"
      if "readlines p v = readlines p w" for v
      using that r by (simp add: add_to_cmake_def)
    then show ?thesis by (rule early)
  next
    case i: (Inr i)
    show ?thesis
    proof (cases "scan_past_marker ?ls i")
      case (Inl e)
      then have "add_to_cmake p c v = (Inl e, print_line (found_msg p) v)"
        if "readlines p v = readlines p w" for v
        using that r i by (simp add: add_to_cmake_def)
      then show ?thesis by (rule early)
    next
      case (Inr j)
      with Some i show ?thesis by (rule asked)
    qed
  qed
qed

lemma confirm_loop_error: "confirm_loop msg ins out = (Inl e, ins', out') \<Longrightarrow> ins' = []"
  by (induction msg ins out rule: confirm_loop.induct) (auto split: if_splits)

lemma confirm_error: "confirm msg w = (Inl e, w2) \<Longrightarrow> stdin w2 = []"
  by (auto simp: confirm_def split: prod.splits dest: confirm_loop_error)

lemma confirm_no_input: "stdin w = [] \<Longrightarrow> fst (confirm msg w) = Inl EOFError"
  by (simp add: confirm_def)

lemma add_to_cmake_present:
  assumes "files w p = Some body" "addition c \<in> set (split_lines (universal_newlines body))"
  shows "files (snd (add_to_cmake p c w)) = files w"
proof (cases rule: add_to_cmake_outcome [of p w c])
  case (early e)
  then show ?thesis by simp
next
  case (asked body2 i j)
  with assms(1) have t: "body2 = body" by simp
  show ?thesis
  proof (cases rule: confirm_cases [of "confirm_msg c p" "print_line (found_msg p) w"])
    case (err e w2)
    then have "files w2 = files w"
      using confirm_files [of "confirm_msg c p" "print_line (found_msg p) w"] by simp
    then show ?thesis using add_to_cmake_scanned [OF asked, of c] err by simp
  next
    case (yes w2)
    then have "files w2 = files w"
      using confirm_files [of "confirm_msg c p" "print_line (found_msg p) w"] by simp
    then show ?thesis using add_to_cmake_scanned [OF asked, of c] yes assms(2) t by simp
  next
    case (no w2)
    then have "files w2 = files w"
      using confirm_files [of "confirm_msg c p" "print_line (found_msg p) w"] by simp
    then show ?thesis using add_to_cmake_scanned [OF asked, of c] no by simp
  qed
qed

lemma add_to_cmake_no_input:
  assumes "stdin w = []"
  shows "files (snd (add_to_cmake p c w)) = files w"
proof (cases rule: add_to_cmake_outcome [of p w c])
  case (early e)
  then show ?thesis by simp
next
  case (asked body i j)
  have "fst (confirm (confirm_msg c p) (print_line (found_msg p) w)) = Inl EOFError"
    using assms by (simp add: confirm_no_input)
  then obtain w2 where c: "confirm (confirm_msg c p) (print_line (found_msg p) w) = (Inl EOFError, w2)"
    by (cases "confirm (confirm_msg c p) (print_line (found_msg p) w)") auto
  then have "files w2 = files w"
    using confirm_files [of "confirm_msg c p" "print_line (found_msg p) w"] by simp
  then show ?thesis using add_to_cmake_scanned [OF asked, of c] c by simp
qed

lemma add_to_cmake_twice:
  assumes "LF \<notin> set c" "CR \<notin> set c" "fst (add_to_cmake p c w) \<noteq> Inr False"
  shows "files (snd (add_to_cmake p c (snd (add_to_cmake p c w)))) = files (snd (add_to_cmake p c w))"
proof (cases rule: add_to_cmake_outcome [of p w c])
  case (early e)
  have "add_to_cmake p c w = (Inl e, print_line (found_msg p) w)"
    by (rule early) simp
  moreover have "add_to_cmake p c (print_line (found_msg p) w)
      = (Inl e, print_line (found_msg p) (print_line (found_msg p) w))"
    by (rule early) simp
  ultimately show ?thesis by simp
next
  case (asked body i j)
  let ?ls = "split_lines (universal_newlines body)"
  note run = add_to_cmake_scanned [OF asked, of c]
  show ?thesis
  proof (cases rule: confirm_cases [of "confirm_msg c p" "print_line (found_msg p) w"])
    case (err e w2)
    then have "add_to_cmake p c w = (Inl e, w2)" using run by simp
    moreover have "stdin w2 = []" using err by (rule confirm_error)
    ultimately show ?thesis by (simp add: add_to_cmake_no_input)
  next
    case (no w2)
    then have "add_to_cmake p c w = (Inr False, w2)" using run by simp
    with assms(3) show ?thesis by simp
  next
    case (yes w2)
    then have f2: "files w2 = files w"
      using confirm_files [of "confirm_msg c p" "print_line (found_msg p) w"] by simp
    show ?thesis
    proof (cases "addition c \<in> set ?ls")
      case True
      then have "add_to_cmake p c w
          = (Inr True, print_line ''Component already added to CMakeLists.txt'' w2)"
        using run yes by simp
      moreover have "files (print_line ''Component already added to CMakeLists.txt'' w2) p = Some body"
        using f2 asked(1) by simp
      ultimately show ?thesis using True by (simp add: add_to_cmake_present)
    next
      case False
      let ?new = "concat (list_insert j (addition c) ?ls)"
      from False have r1: "add_to_cmake p c w = (Inr True, write_file p ?new w2)"
        using run yes by simp
      have f: "files (write_file p ?new w2) p = Some ?new" by simp
      have "j < length ?ls" using asked(3) by (rule scan_past_marker_bound)
      then have "readlines p (write_file p ?new w2) = Inr (list_insert j (addition c) ?ls)"
        using assms(1,2) f by (intro readlines_inserted)
      then have "split_lines (universal_newlines ?new) = list_insert j (addition c) ?ls"
        using f by (simp add: readlines_def)
      then have "addition c \<in> set (split_lines (universal_newlines ?new))"
        by (simp add: list_insert_def)
      with f have "files (snd (add_to_cmake p c (write_file p ?new w2))) = files (write_file p ?new w2)"
        by (rule add_to_cmake_present)
      with r1 show ?thesis by simp
    qed
  qed
qed

lemma confirm_loop_prompt: "msg \<in> set (snd (snd (confirm_loop msg ins out)))"
  by (induction msg ins out rule: confirm_loop.induct) auto

lemma confirm_prompt: "msg \<in> set (stdout (snd (confirm msg w)))"
  using confirm_loop_prompt [of msg "stdin w" "stdout w"]
  by (cases "confirm_loop msg (stdin w) (stdout w)") (simp add: confirm_def)

lemma confirm_loop_answer:
  "confirm_loop msg ins out = (Inr b, ins', out') \<Longrightarrow> length ins' < length ins"
  by (induction msg ins out rule: confirm_loop.induct) (auto split: if_splits)

lemma confirm_answer: "confirm msg w = (Inr b, w2) \<Longrightarrow> length (stdin w2) < length (stdin w)"
  by (auto simp: confirm_def split: prod.splits dest: confirm_loop_answer)

lemma add_to_cmake_block_scanned:
  assumes "files w p = Some body"
    and "split_lines (universal_newlines body) = pre @ block @ nxt # rest"
    and "\<forall>l\<in>set pre. \<not> str_in marker l"
    and "block \<noteq> []"
    and "\<forall>l\<in>set block. str_in marker l"
    and "\<not> str_in marker nxt"
  shows "add_to_cmake p c w =
     (case confirm (confirm_msg c p) (print_line (found_msg p) w) of
        (Inl e, w2) \<Rightarrow> (Inl e, w2)
      | (Inr False, w2) \<Rightarrow> (Inr False, w2)
      | (Inr True, w2) \<Rightarrow>
          if addition c \<in> set (pre @ block @ nxt # rest)
          then (Inr True, print_line ''Component already added to CMakeLists.txt'' w2)
          else (Inr True,
                write_file p (concat (pre @ block @ addition c # nxt # rest)) w2))"
proof -
  let ?ls = "split_lines (universal_newlines body)"
  have s1: "scan_to_marker ?ls 0 = Inr (length pre)"
    unfolding assms(2) using assms(3,4,5,6) by (rule scan_block)
  have s2: "scan_past_marker ?ls (length pre) = Inr (length pre + length block)"
    unfolding assms(2) using assms(3,4,5,6) by (rule scan_block)
  note run = add_to_cmake_scanned [OF assms(1) s1 s2, of c]
  show ?thesis
  proof (cases rule: confirm_cases [of "confirm_msg c p" "print_line (found_msg p) w"])
    case (err e w2)
    then show ?thesis using run by simp
  next
    case (yes w2)
    then show ?thesis using run by (simp add: assms(2) list_insert_after_block)
  next
    case (no w2)
    then show ?thesis using run by simp
  qed
qed

text \<open>
  C2 (as amended). Applying \<open>add_to_cmake\<close> twice with the same directive leaves the files
  as one application does, for every world in which the first confirmation is not
  declined and for every path without a line break (the directive is then one line);
  and when the directive is already a line of the file, the marker block is followed by
  a further line and the confirmation is accepted, \<open>add_to_cmake\<close> returns \<open>True\<close> and
  writes nothing.
\<close>

theorem add_to_cmake_idempotent:
  "(LF \<notin> set comp_path \<and> CR \<notin> set comp_path
      \<and> fst (add_to_cmake list_file comp_path w) \<noteq> Inr False
    \<longrightarrow> files (snd (add_to_cmake list_file comp_path (snd (add_to_cmake list_file comp_path w))))
          = files (snd (add_to_cmake list_file comp_path w)))
   \<and> (files w list_file = Some body
      \<and> split_lines (universal_newlines body) = pre @ block @ nxt # rest
      \<and> (\<forall>l\<in>set pre. \<not> str_in marker l) \<and> block \<noteq> []
      \<and> (\<forall>l\<in>set block. str_in marker l) \<and> \<not> str_in marker nxt
      \<and> addition comp_path \<in> set (pre @ block @ nxt # rest)
      \<and> fst (confirm (confirm_msg comp_path list_file) (print_line (found_msg list_file) w))
            = Inr True
    \<longrightarrow> fst (add_to_cmake list_file comp_path w) = Inr True
        \<and> files (snd (add_to_cmake list_file comp_path w)) = files w)"
proof (intro conjI impI)
  assume "LF \<notin> set comp_path \<and> CR \<notin> set comp_path
      \<and> fst (add_to_cmake list_file comp_path w) \<noteq> Inr False"
  then show "files (snd (add_to_cmake list_file comp_path (snd (add_to_cmake list_file comp_path w))))
          = files (snd (add_to_cmake list_file comp_path w))"
    by (simp add: add_to_cmake_twice)
next
  assume a: "files w list_file = Some body
      \<and> split_lines (universal_newlines body) = pre @ block @ nxt # rest
      \<and> (\<forall>l\<in>set pre. \<not> str_in marker l) \<and> block \<noteq> []
      \<and> (\<forall>l\<in>set block. str_in marker l) \<and> \<not> str_in marker nxt
      \<and> addition comp_path \<in> set (pre @ block @ nxt # rest)
      \<and> fst (confirm (confirm_msg comp_path list_file) (print_line (found_msg list_file) w))
            = Inr True"
  then obtain w2 where c: "confirm (confirm_msg comp_path list_file)
      (print_line (found_msg list_file) w) = (Inr True, w2)"
    by (cases "confirm (confirm_msg comp_path list_file) (print_line (found_msg list_file) w)") auto
  have run: "add_to_cmake list_file comp_path w
      = (Inr True, print_line ''Component already added to CMakeLists.txt'' w2)"
    using add_to_cmake_block_scanned [of w list_file body pre block nxt rest comp_path] a c
    by simp
  then show "fst (add_to_cmake list_file comp_path w) = Inr True" by simp
  show "files (snd (add_to_cmake list_file comp_path w)) = files w"
    using a by (intro add_to_cmake_present [of w list_file body]) simp_all
qed

text \<open>
  C9 (as amended). The duplicate check comes after the confirmation: when the directive
  is already a line of the file and the marker block is followed by a further line, the
  user is still asked (the prompt is written and an answer is read), and on a decline
  \<open>add_to_cmake\<close> returns \<open>False\<close>, not success, and leaves the files as they are.
\<close>

theorem add_to_cmake_declined_when_present:
  assumes "files w list_file = Some body"
    and "split_lines (universal_newlines body) = pre @ block @ nxt # rest"
    and "\<forall>l\<in>set pre. \<not> str_in marker l"
    and "block \<noteq> []"
    and "\<forall>l\<in>set block. str_in marker l"
    and "\<not> str_in marker nxt"
    and "addition comp_path \<in> set (pre @ block @ nxt # rest)"
    and "fst (confirm (confirm_msg comp_path list_file) (print_line (found_msg list_file) w))
           = Inr False"
  shows "fst (add_to_cmake list_file comp_path w) = Inr False
     \<and> files (snd (add_to_cmake list_file comp_path w)) = files w
     \<and> confirm_msg comp_path list_file \<in> set (stdout (snd (add_to_cmake list_file comp_path w)))
     \<and> length (stdin (snd (add_to_cmake list_file comp_path w))) < length (stdin w)"
proof -
  let ?c = "confirm (confirm_msg comp_path list_file) (print_line (found_msg list_file) w)"
  obtain w2 where c: "?c = (Inr False, w2)"
    using assms(8) by (cases ?c) auto
  have run: "add_to_cmake list_file comp_path w = (Inr False, w2)"
    using add_to_cmake_block_scanned [OF assms(1-6), of comp_path] c by simp
  have "files w2 = files w"
    using confirm_files [of "confirm_msg comp_path list_file" "print_line (found_msg list_file) w"] c
    by simp
  moreover have "confirm_msg comp_path list_file \<in> set (stdout w2)"
    using confirm_prompt [of "confirm_msg comp_path list_file" "print_line (found_msg list_file) w"] c
    by simp
  moreover have "length (stdin w2) < length (stdin w)"
    using confirm_answer [OF c] by simp
  ultimately show ?thesis using run by simp
qed

lemma directive_last_lines:
  "split_lines (universal_newlines directive_last_text) = [''project(Ref)'' @ [LF], addition ''Comp'']"
  by (simp add: directive_last_text_def addition_def LF_def CR_def dquote_def)

lemma directive_only_lines:
  "split_lines (universal_newlines (addition ''Comp'')) = [addition ''Comp'']"
  by (simp add: addition_def LF_def CR_def dquote_def)

lemma directive_present_lines:
  "split_lines (universal_newlines directive_present_text)
     = [''project(Ref)'' @ [LF]] @ [addition ''Comp''] @ (''include(Top)'' @ [LF]) # []"
  by (simp add: directive_present_text_def addition_def LF_def CR_def dquote_def)

text \<open>
  C2 as stated fails when the marker block ends the file: the directive is a line of the
  file, and the second scan raises \<open>IndexError\<close> instead of reporting success.
\<close>

theorem add_to_cmake_directive_last_counterexample:
  "files (sample_world directive_last_text [''yes'']) ''CMakeLists.txt'' = Some directive_last_text
   \<and> addition ''Comp'' \<in> set (split_lines (universal_newlines directive_last_text))
   \<and> str_in marker (addition ''Comp'')
   \<and> fst (add_to_cmake ''CMakeLists.txt'' ''Comp'' (sample_world directive_last_text [''yes'']))
       = Inl IndexError"
proof -
  have "scan_to_marker [''project(Ref)'' @ [LF], addition ''Comp''] 0 = Inr 1"
    by (simp add: scan_to_marker.simps marker_def addition_def)
  moreover have "scan_past_marker [''project(Ref)'' @ [LF], addition ''Comp''] 1 = Inl IndexError"
    by (simp add: scan_past_marker.simps marker_def addition_def)
  ultimately show ?thesis
    by (simp add: add_to_cmake_def readlines_def sample_world_def directive_last_lines
        addition_marker print_line_def)
qed

text \<open>
  C9 as stated fails on the same kind of file: the directive is there, the answer
  \<open>no\<close> is waiting, and the run raises \<open>IndexError\<close> with no prompt written and no
  answer read.
\<close>

theorem add_to_cmake_not_prompted_counterexample:
  "files (sample_world (addition ''Comp'') [''no'']) ''CMakeLists.txt'' = Some (addition ''Comp'')
   \<and> addition ''Comp'' \<in> set (split_lines (universal_newlines (addition ''Comp'')))
   \<and> fst (add_to_cmake ''CMakeLists.txt'' ''Comp'' (sample_world (addition ''Comp'') [''no'']))
       = Inl IndexError
   \<and> stdin (snd (add_to_cmake ''CMakeLists.txt'' ''Comp'' (sample_world (addition ''Comp'') [''no''])))
       = [''no'']
   \<and> stdout (snd (add_to_cmake ''CMakeLists.txt'' ''Comp'' (sample_world (addition ''Comp'') [''no''])))
       = [found_msg ''CMakeLists.txt'']"
proof -
  have "scan_to_marker [addition ''Comp''] 0 = Inr 0"
    by (simp add: scan_to_marker.simps marker_def addition_def)
  moreover have "scan_past_marker [addition ''Comp''] 0 = Inl IndexError"
    by (simp add: scan_past_marker.simps marker_def addition_def)
  ultimately show ?thesis
    by (simp add: add_to_cmake_def readlines_def sample_world_def directive_only_lines
        print_line_def)
qed

lemma confirm_no:
  "stdin w = ''no'' # ins \<Longrightarrow> fst (confirm msg w) = Inr False"
  by (simp add: confirm_def lower_def lower_char_def)

lemma sample_files [simp]: "files (sample_world body ins) ''CMakeLists.txt'' = Some body"
  by (simp add: sample_world_def)

lemma sample_stdin [simp]: "stdin (sample_world body ins) = ins"
  by (simp add: sample_world_def)

lemma marker_samples:
  "\<not> str_in marker (''project(Ref)'' @ [LF])"
  "\<not> str_in marker (''include(Top)'' @ [LF])"
  "str_in marker (''add_fprime_subdirectory(A)'' @ [LF])"
  by (simp_all add: marker_def LF_def)

lemma one_directive_run:
  "fst (add_to_cmake ''CMakeLists.txt'' ''Comp'' (sample_world one_directive_text [''yes'', ''yes'']))
     = Inr True"
proof -
  let ?w = "sample_world one_directive_text [''yes'', ''yes'']"
  have c: "fst (confirm (confirm_msg ''Comp'' ''CMakeLists.txt'')
            (print_line (found_msg ''CMakeLists.txt'') ?w)) = Inr True"
    by (rule confirm_yes [where ins = "[''yes'']"]) simp
  then obtain w2 where "confirm (confirm_msg ''Comp'' ''CMakeLists.txt'')
            (print_line (found_msg ''CMakeLists.txt'') ?w) = (Inr True, w2)"
    by (cases "confirm (confirm_msg ''Comp'' ''CMakeLists.txt'')
            (print_line (found_msg ''CMakeLists.txt'') ?w)") auto
  then show ?thesis
    using add_to_cmake_block_scanned [of ?w "''CMakeLists.txt''" one_directive_text
        "[''project(Ref)'' @ [LF]]" "[''add_fprime_subdirectory(A)'' @ [LF]]"
        "''include(Top)'' @ [LF]" "[]" "''Comp''"] one_directive_lines marker_samples
    by (simp split: if_splits)
qed

theorem add_to_cmake_idempotent_witness:
  "LF \<notin> set ''Comp'' \<and> CR \<notin> set ''Comp''
   \<and> fst (add_to_cmake ''CMakeLists.txt'' ''Comp''
            (sample_world one_directive_text [''yes'', ''yes''])) = Inr True
   \<and> files (snd (add_to_cmake ''CMakeLists.txt'' ''Comp''
        (snd (add_to_cmake ''CMakeLists.txt'' ''Comp''
               (sample_world one_directive_text [''yes'', ''yes''])))))
       = files (snd (add_to_cmake ''CMakeLists.txt'' ''Comp''
               (sample_world one_directive_text [''yes'', ''yes''])))
   \<and> files (sample_world directive_present_text [''yes'']) ''CMakeLists.txt''
       = Some directive_present_text
   \<and> split_lines (universal_newlines directive_present_text)
       = [''project(Ref)'' @ [LF]] @ [addition ''Comp''] @ (''include(Top)'' @ [LF]) # []
   \<and> \<not> str_in marker (''project(Ref)'' @ [LF])
   \<and> str_in marker (addition ''Comp'')
   \<and> \<not> str_in marker (''include(Top)'' @ [LF])
   \<and> fst (confirm (confirm_msg ''Comp'' ''CMakeLists.txt'')
            (print_line (found_msg ''CMakeLists.txt'')
               (sample_world directive_present_text [''yes'']))) = Inr True
   \<and> fst (add_to_cmake ''CMakeLists.txt'' ''Comp'' (sample_world directive_present_text [''yes'']))
       = Inr True
   \<and> files (snd (add_to_cmake ''CMakeLists.txt'' ''Comp''
               (sample_world directive_present_text [''yes''])))
       = files (sample_world directive_present_text [''yes''])"
proof -
  let ?a = "sample_world one_directive_text [''yes'', ''yes'']"
  let ?b = "sample_world directive_present_text [''yes'']"
  have lf: "LF \<notin> set ''Comp''" "CR \<notin> set ''Comp''" by (simp_all add: LF_def CR_def)
  have c: "fst (confirm (confirm_msg ''Comp'' ''CMakeLists.txt'')
            (print_line (found_msg ''CMakeLists.txt'') ?b)) = Inr True"
    by (rule confirm_yes [where ins = "[]"]) simp
  have first: "files (snd (add_to_cmake ''CMakeLists.txt'' ''Comp''
        (snd (add_to_cmake ''CMakeLists.txt'' ''Comp'' ?a))))
       = files (snd (add_to_cmake ''CMakeLists.txt'' ''Comp'' ?a))"
    using add_to_cmake_idempotent [of "''Comp''" "''CMakeLists.txt''" ?a] lf one_directive_run
    by simp
  have second: "fst (add_to_cmake ''CMakeLists.txt'' ''Comp'' ?b) = Inr True
     \<and> files (snd (add_to_cmake ''CMakeLists.txt'' ''Comp'' ?b)) = files ?b"
    using add_to_cmake_idempotent [of "''Comp''" "''CMakeLists.txt''" ?b directive_present_text
        "[''project(Ref)'' @ [LF]]" "[addition ''Comp'']" "''include(Top)'' @ [LF]" "[]"]
      directive_present_lines marker_samples addition_marker c
    by simp
  show ?thesis
    using first second lf one_directive_run directive_present_lines marker_samples
      addition_marker c
    by simp
qed

theorem add_to_cmake_declined_when_present_witness:
  "files (sample_world directive_present_text [''no'']) ''CMakeLists.txt''
       = Some directive_present_text
   \<and> split_lines (universal_newlines directive_present_text)
       = [''project(Ref)'' @ [LF]] @ [addition ''Comp''] @ (''include(Top)'' @ [LF]) # []
   \<and> \<not> str_in marker (''project(Ref)'' @ [LF])
   \<and> str_in marker (addition ''Comp'')
   \<and> \<not> str_in marker (''include(Top)'' @ [LF])
   \<and> fst (confirm (confirm_msg ''Comp'' ''CMakeLists.txt'')
            (print_line (found_msg ''CMakeLists.txt'')
               (sample_world directive_present_text [''no'']))) = Inr False
   \<and> fst (add_to_cmake ''CMakeLists.txt'' ''Comp'' (sample_world directive_present_text [''no'']))
       = Inr False
   \<and> files (snd (add_to_cmake ''CMakeLists.txt'' ''Comp''
               (sample_world directive_present_text [''no''])))
       = files (sample_world directive_present_text [''no''])
   \<and> confirm_msg ''Comp'' ''CMakeLists.txt''
       \<in> set (stdout (snd (add_to_cmake ''CMakeLists.txt'' ''Comp''
               (sample_world directive_present_text [''no'']))))
   \<and> stdin (snd (add_to_cmake ''CMakeLists.txt'' ''Comp''
               (sample_world directive_present_text [''no'']))) = []"
proof -
  let ?b = "sample_world directive_present_text [''no'']"
  have f: "files ?b ''CMakeLists.txt'' = Some directive_present_text" by simp
  have p: "\<forall>l\<in>set [''project(Ref)'' @ [LF]]. \<not> str_in marker l"
    using marker_samples by simp
  have b: "[addition ''Comp''] \<noteq> []" by simp
  have bm: "\<forall>l\<in>set [addition ''Comp'']. str_in marker l"
    using addition_marker by simp
  have n: "addition ''Comp''
      \<in> set ([''project(Ref)'' @ [LF]] @ [addition ''Comp''] @ (''include(Top)'' @ [LF]) # [])"
    by simp
  have c: "fst (confirm (confirm_msg ''Comp'' ''CMakeLists.txt'')
            (print_line (found_msg ''CMakeLists.txt'') ?b)) = Inr False"
    by (rule confirm_no [where ins = "[]"]) simp
  show ?thesis
    using add_to_cmake_declined_when_present
      [OF f directive_present_lines p b bm marker_samples(2) n c]
      directive_present_lines marker_samples addition_marker c
    by simp
qed

text \<open>
  A path with a line break: the directive is read back as two lines, the duplicate check
  misses it, and the second application writes again.
\<close>

lemma add_to_cmake_line_break_path_twice:
  "files (snd (add_to_cmake ''CMakeLists.txt'' line_break_path
        (snd (add_to_cmake ''CMakeLists.txt'' line_break_path
               (sample_world one_directive_text [''yes'', ''yes''])))))  ''CMakeLists.txt''
       \<noteq> files (snd (add_to_cmake ''CMakeLists.txt'' line_break_path
               (sample_world one_directive_text [''yes'', ''yes'']))) ''CMakeLists.txt''"
  by code_simp

section \<open>Properties of the merge step\<close>

lemma files_append_file:
  "files (append_file p body w) =
     (files w)(p \<mapsto> (case files w p of None \<Rightarrow> body | Some old \<Rightarrow> old @ body))"
  by (simp add: append_file_def)

lemma copy_without_header_found:
  "files w src = Some stub \<Longrightarrow>
   copy_without_header src dest w =
     (None, append_file dest (concat (drop 11 (split_lines (universal_newlines stub)))) w)"
  by (simp add: copy_without_header_def readlines_def)

lemma remove_file_found:
  "files w p = Some body \<Longrightarrow> remove_file p w = (None, w\<lparr>files := (files w)(p := None)\<rparr>)"
  by (simp add: remove_file_def)

lemma run_impl_reaches_merge:
  assumes "build_load env path w0 = (None, w1)"
    and "select_destinations (glob env (path @ ''/*.hpp'') w1) (glob env (path @ ''/*.cpp'') w1)
           = Some (hpp_dest, cpp_dest)"
    and "confirm (''Generate implementations and merge into '' @ hpp_dest @ '' and '' @ cpp_dest
                    @ ''?'') w1 = (Inr True, w2)"
    and "build_execute env path w2 = (None, w3)"
    and "glob env (path @ ''/*.hpp-template'') w3 = hpp_src # hpp_more"
    and "glob env (path @ ''/*.cpp-template'') w3 = cpp_src # cpp_more"
  shows "run_impl env path w0 = merge_templates hpp_src hpp_dest cpp_src cpp_dest w3"
  using assms by (simp add: run_impl_def)

text \<open>
  C4. With a stub for each destination, on four different paths (the four \<open>glob\<close>
  patterns end differently, see \<open>glob_suffixes_distinct\<close>), the merge step returns \<open>True\<close>;
  each destination holds what it held, followed by the lines of its stub after the
  first 11; a destination that was empty holds exactly the lines from the 12th on; both
  stubs are gone, and no other file is touched.
\<close>

theorem merge_templates_appends:
  assumes "distinct [hpp_src, cpp_src, hpp_dest, cpp_dest]"
    and "files w hpp_src = Some hpp_stub"
    and "files w cpp_src = Some cpp_stub"
  shows "fst (merge_templates hpp_src hpp_dest cpp_src cpp_dest w) = Inr True
     \<and> files (snd (merge_templates hpp_src hpp_dest cpp_src cpp_dest w)) hpp_dest
         = Some ((case files w hpp_dest of None \<Rightarrow> [] | Some old \<Rightarrow> old)
                  @ concat (drop 11 (split_lines (universal_newlines hpp_stub))))
     \<and> files (snd (merge_templates hpp_src hpp_dest cpp_src cpp_dest w)) cpp_dest
         = Some ((case files w cpp_dest of None \<Rightarrow> [] | Some old \<Rightarrow> old)
                  @ concat (drop 11 (split_lines (universal_newlines cpp_stub))))
     \<and> (files w hpp_dest = Some [] \<longrightarrow>
          files (snd (merge_templates hpp_src hpp_dest cpp_src cpp_dest w)) hpp_dest
            = Some (concat (drop 11 (split_lines (universal_newlines hpp_stub)))))
     \<and> (files w cpp_dest = Some [] \<longrightarrow>
          files (snd (merge_templates hpp_src hpp_dest cpp_src cpp_dest w)) cpp_dest
            = Some (concat (drop 11 (split_lines (universal_newlines cpp_stub)))))
     \<and> files (snd (merge_templates hpp_src hpp_dest cpp_src cpp_dest w)) hpp_src = None
     \<and> files (snd (merge_templates hpp_src hpp_dest cpp_src cpp_dest w)) cpp_src = None
     \<and> (\<forall>p. p \<notin> {hpp_src, cpp_src, hpp_dest, cpp_dest} \<longrightarrow>
          files (snd (merge_templates hpp_src hpp_dest cpp_src cpp_dest w)) p = files w p)"
proof -
  let ?h = "concat (drop 11 (split_lines (universal_newlines hpp_stub)))"
  let ?c = "concat (drop 11 (split_lines (universal_newlines cpp_stub)))"
  let ?w1 = "append_file hpp_dest ?h w"
  let ?w2 = "append_file cpp_dest ?c ?w1"
  let ?w3 = "?w2\<lparr>files := (files ?w2)(hpp_src := None)\<rparr>"
  let ?w4 = "?w3\<lparr>files := (files ?w3)(cpp_src := None)\<rparr>"
  have d: "hpp_src \<noteq> cpp_src" "hpp_src \<noteq> hpp_dest" "hpp_src \<noteq> cpp_dest"
    "cpp_src \<noteq> hpp_dest" "cpp_src \<noteq> cpp_dest" "hpp_dest \<noteq> cpp_dest"
    using assms(1) by auto
  have c1: "copy_without_header hpp_src hpp_dest w = (None, ?w1)"
    using assms(2) by (rule copy_without_header_found)
  have "files ?w1 cpp_src = Some cpp_stub"
    using assms(3) d by (simp add: files_append_file)
  then have c2: "copy_without_header cpp_src cpp_dest ?w1 = (None, ?w2)"
    by (rule copy_without_header_found)
  have "files ?w2 hpp_src = Some hpp_stub"
    using assms(2) d by (simp add: files_append_file)
  then have r1: "remove_file hpp_src ?w2 = (None, ?w3)"
    by (rule remove_file_found)
  have "files ?w3 cpp_src = Some cpp_stub"
    using assms(3) d by (simp add: files_append_file)
  then have r2: "remove_file cpp_src ?w3 = (None, ?w4)"
    by (rule remove_file_found)
  have run: "merge_templates hpp_src hpp_dest cpp_src cpp_dest w = (Inr True, ?w4)"
    by (simp only: merge_templates_def copy_all.simps remove_all.simps c1 c2 r1 r2
        prod.case option.case)
  show ?thesis
    unfolding run using d by (auto simp: files_append_file split: option.splits)
qed

lemma suffix_last: "suffix a s \<Longrightarrow> a \<noteq> [] \<Longrightarrow> last s = last a"
  by (auto simp: suffix_def)

lemma suffix_same_length: "suffix a s \<Longrightarrow> suffix b s \<Longrightarrow> length a = length b \<Longrightarrow> a = b"
  by (auto simp: suffix_def)

lemma glob_suffixes_distinct:
  assumes "suffix ''.hpp'' hpp_dest" "suffix ''.cpp'' cpp_dest"
    and "suffix ''.hpp-template'' hpp_src" "suffix ''.cpp-template'' cpp_src"
  shows "distinct [hpp_src, cpp_src, hpp_dest, cpp_dest]"
proof -
  have "last hpp_dest = CHR ''p''" "last cpp_dest = CHR ''p''"
    "last hpp_src = CHR ''e''" "last cpp_src = CHR ''e''"
    using assms by (auto dest: suffix_last)
  moreover have "hpp_dest \<noteq> cpp_dest"
    using assms(1,2) suffix_same_length [of "''.hpp''" hpp_dest "''.cpp''"] by auto
  moreover have "hpp_src \<noteq> cpp_src"
    using assms(3,4) suffix_same_length [of "''.hpp-template''" hpp_src "''.cpp-template''"] by auto
  ultimately show ?thesis by auto
qed

lemma stub_lines:
  "drop 11 (split_lines (universal_newlines hpp_stub_text)) = [''void f();'' @ [LF], ''void g();'' @ [LF]]"
  "drop 11 (split_lines (universal_newlines cpp_stub_text)) = [''void f() {}'' @ [LF]]"
  "length (split_lines (universal_newlines hpp_stub_text)) = 13"
  by code_simp+

theorem merge_templates_appends_witness:
  "distinct [''C/C.hpp-template'', ''C/C.cpp-template'', ''C/C.hpp'', ''C/C.cpp'']
   \<and> files merge_world ''C/C.hpp-template'' = Some hpp_stub_text
   \<and> files merge_world ''C/C.cpp-template'' = Some cpp_stub_text
   \<and> files merge_world ''C/C.hpp'' = Some []
   \<and> length (split_lines (universal_newlines hpp_stub_text)) = 13
   \<and> fst (merge_templates ''C/C.hpp-template'' ''C/C.hpp'' ''C/C.cpp-template'' ''C/C.cpp'' merge_world)
       = Inr True
   \<and> files (snd (merge_templates ''C/C.hpp-template'' ''C/C.hpp'' ''C/C.cpp-template'' ''C/C.cpp''
                   merge_world)) ''C/C.hpp''
       = Some (''void f();'' @ [LF] @ ''void g();'' @ [LF])
   \<and> files (snd (merge_templates ''C/C.hpp-template'' ''C/C.hpp'' ''C/C.cpp-template'' ''C/C.cpp''
                   merge_world)) ''C/C.cpp''
       = Some (''// mine'' @ [LF] @ ''void f() {}'' @ [LF])
   \<and> files (snd (merge_templates ''C/C.hpp-template'' ''C/C.hpp'' ''C/C.cpp-template'' ''C/C.cpp''
                   merge_world)) ''C/C.hpp-template'' = None
   \<and> files (snd (merge_templates ''C/C.hpp-template'' ''C/C.hpp'' ''C/C.cpp-template'' ''C/C.cpp''
                   merge_world)) ''C/C.cpp-template'' = None"
proof -
  have d: "distinct [''C/C.hpp-template'', ''C/C.cpp-template'', ''C/C.hpp'', ''C/C.cpp'']"
    by simp
  have f: "files merge_world ''C/C.hpp-template'' = Some hpp_stub_text"
    "files merge_world ''C/C.cpp-template'' = Some cpp_stub_text"
    "files merge_world ''C/C.hpp'' = Some []"
    "files merge_world ''C/C.cpp'' = Some (''// mine'' @ [LF])"
    by (simp_all add: merge_world_def)
  show ?thesis
    using merge_templates_appends [OF d f(1) f(2)] d f stub_lines by simp
qed

section \<open>Properties of the choice of destinations\<close>

lemma sorted_hd_least: "sorted (map f xs) \<Longrightarrow> x \<in> set xs \<Longrightarrow> f (hd xs) \<le> f x"
  by (cases xs) auto

text \<open>
  C10. When some \<open>.hpp\<close> candidate exists and at least one \<open>.cpp\<close> candidate contains
  \<open>Common\<close>, the \<open>.cpp\<close> destination is a candidate that contains \<open>Common\<close> and is no
  longer than any other candidate that does; among several of that length it is the
  first in the order of \<open>glob\<close>. The \<open>.hpp\<close> destination is the first \<open>.hpp\<close> candidate.
\<close>

theorem select_destinations_shortest_common:
  assumes "hpp_files \<noteq> []"
    and "\<exists>x\<in>set cpp_files. str_in ''Common'' x"
  shows "\<exists>h d. select_destinations hpp_files cpp_files = Some (h, d)
     \<and> h = hd hpp_files
     \<and> d \<in> set cpp_files
     \<and> str_in ''Common'' d
     \<and> (\<forall>x\<in>set cpp_files. str_in ''Common'' x \<longrightarrow> length d \<le> length x)
     \<and> d = hd (filter (\<lambda>x. str_in ''Common'' x \<and> length x = length d) cpp_files)"
proof -
  let ?P = "str_in ''Common''"
  let ?cs = "sort_key length cpp_files"
  let ?common = "filter ?P ?cs"
  from assms(2) have "?common \<noteq> []" by (auto simp: filter_empty_conv)
  then obtain d ds where common: "?common = d # ds" by (cases ?common) auto
  then have "?cs \<noteq> []" by auto
  then obtain c cs' where cs: "?cs = c # cs'" by (cases ?cs) auto
  obtain h hs where h: "hpp_files = h # hs" using assms(1) by (cases hpp_files) auto
  have sel: "select_destinations hpp_files cpp_files = Some (h, d)"
    using h cs common by (simp add: select_destinations_def)
  have "d \<in> set ?common" using common by simp
  then have mem: "d \<in> set cpp_files" and pd: "?P d" by auto
  have srt: "sorted (map length ?common)"
    by (intro sorted_filter sorted_sort_key)
  have least: "length d \<le> length x" if "x \<in> set cpp_files" "?P x" for x
  proof -
    from that have "x \<in> set ?common" by simp
    with srt have "length (hd ?common) \<le> length x" by (rule sorted_hd_least)
    then show ?thesis using common by simp
  qed
  have "filter (\<lambda>x. ?P x \<and> length x = length d) cpp_files
      = filter ?P (filter (\<lambda>x. length x = length d) cpp_files)"
    by (simp add: conj_commute)
  also have "\<dots> = filter ?P (filter (\<lambda>x. length x = length d) ?cs)"
    by (simp only: sort_key_stable)
  also have "\<dots> = filter (\<lambda>x. length x = length d) ?common"
    by (simp add: conj_commute)
  also have "\<dots> = d # filter (\<lambda>x. length x = length d) ds"
    using common by simp
  finally have first: "d = hd (filter (\<lambda>x. ?P x \<and> length x = length d) cpp_files)"
    by simp
  show ?thesis
    using sel h mem pd least first by auto
qed

theorem select_destinations_shortest_common_witness:
  "[''C/C.hpp''] \<noteq> []
   \<and> str_in ''Common'' ''C/CCommonExtra.cpp''
   \<and> str_in ''Common'' ''C/CCommon.cpp''
   \<and> \<not> str_in ''Common'' ''C/C.cpp''
   \<and> select_destinations [''C/C.hpp''] [''C/CCommonExtra.cpp'', ''C/C.cpp'', ''C/CCommon.cpp'']
       = Some (''C/C.hpp'', ''C/CCommon.cpp'')"
proof -
  have a: "[''C/C.hpp''] \<noteq> []" by simp
  have p: "str_in ''Common'' ''C/CCommonExtra.cpp''" "str_in ''Common'' ''C/CCommon.cpp''"
    "\<not> str_in ''Common'' ''C/C.cpp''"
    by simp_all
  then have b: "\<exists>x\<in>set [''C/CCommonExtra.cpp'', ''C/C.cpp'', ''C/CCommon.cpp'']. str_in ''Common'' x"
    by simp
  from select_destinations_shortest_common [OF a b]
  obtain h d where s: "select_destinations [''C/C.hpp'']
         [''C/CCommonExtra.cpp'', ''C/C.cpp'', ''C/CCommon.cpp''] = Some (h, d)"
    and hd: "h = hd [''C/C.hpp'']"
    and m: "d \<in> set [''C/CCommonExtra.cpp'', ''C/C.cpp'', ''C/CCommon.cpp'']"
    and c: "str_in ''Common'' d"
    and l: "\<forall>x\<in>set [''C/CCommonExtra.cpp'', ''C/C.cpp'', ''C/CCommon.cpp''].
           str_in ''Common'' x \<longrightarrow> length d \<le> length x"
    by blast
  from l p have "length d \<le> length ''C/CCommon.cpp''" by simp
  with m c p have "d = ''C/CCommon.cpp''" by auto
  with s hd a p show ?thesis by simp
qed

section \<open>Properties of \<open>get_port_input\<close>\<close>

text \<open>
  C8. When a valid port name, a description and a valid directory name are typed and
  then a number of arguments that is neither empty nor numeric, \<open>get_port_input\<close> prints
  the error message and then raises the unbound-local error: it asks nothing again (the
  lines still to be typed are untouched) and returns no value, so no default either.
\<close>

theorem get_port_input_not_numeric:
  assumes "stdin w = pname # descr # dname # number # ins"
    and "is_valid_name pname = ''valid''"
    and "is_valid_name dname = ''valid''"
    and "number \<noteq> []"
    and "\<not> isnumeric number"
  shows "fst (get_port_input w) = Inl UnboundLocalError
     \<and> stdout (snd (get_port_input w))
         = stdout w @ [''Port Name [ExamplePort]: '',
                       ''Short Description [Example usage of port]: '',
                       ''Directory Name [example_directory]: '',
                       ''Number of arguments [1]: '',
                       ''[ERROR] You have not entered a valid number'']
     \<and> stdin (snd (get_port_input w)) = ins
     \<and> files (snd (get_port_input w)) = files w"
  using assms
  by (simp add: get_port_input_def read_name_def input_line_def parse_arg_number_def
      print_line_def Let_def)

theorem get_port_input_not_numeric_witness:
  "is_valid_name ''Ping'' = ''valid''
   \<and> is_valid_name ''ping_dir'' = ''valid''
   \<and> ''abc'' \<noteq> []
   \<and> \<not> isnumeric ''abc''
   \<and> fst (get_port_input \<lparr>files = Map.empty, stdin = [''Ping'', ''A port'', ''ping_dir'', ''abc'', ''2''],
                            stdout = []\<rparr>) = Inl UnboundLocalError
   \<and> stdout (snd (get_port_input
         \<lparr>files = Map.empty, stdin = [''Ping'', ''A port'', ''ping_dir'', ''abc'', ''2''], stdout = []\<rparr>))
       = [''Port Name [ExamplePort]: '',
          ''Short Description [Example usage of port]: '',
          ''Directory Name [example_directory]: '',
          ''Number of arguments [1]: '',
          ''[ERROR] You have not entered a valid number'']
   \<and> stdin (snd (get_port_input
         \<lparr>files = Map.empty, stdin = [''Ping'', ''A port'', ''ping_dir'', ''abc'', ''2''], stdout = []\<rparr>))
       = [''2'']"
proof -
  let ?w = "\<lparr>files = Map.empty, stdin = [''Ping'', ''A port'', ''ping_dir'', ''abc'', ''2''],
             stdout = []\<rparr>"
  have s: "stdin ?w = ''Ping'' # ''A port'' # ''ping_dir'' # ''abc'' # [''2'']" by simp
  have v: "is_valid_name ''Ping'' = ''valid''" "is_valid_name ''ping_dir'' = ''valid''"
    by (simp_all add: is_valid_name_def invalid_characters_def backslash_def squote_def
        dquote_def backtick_def)
  have n: "''abc'' \<noteq> []" "\<not> isnumeric ''abc''" by (simp_all add: isnumeric_def)
  show ?thesis
    using get_port_input_not_numeric [OF s v n] v n by simp
qed

section \<open>Properties of \<open>find_nearest_cmake_lists\<close>\<close>

lemma parent_neq: "p \<noteq> [] \<Longrightarrow> parent p \<noteq> p"
  by (cases p rule: rev_cases) (simp_all add: parent_def)

lemma search_up_at_root:
  assumes "root \<noteq> []"
  shows "search_up is_file (Some root) root =
     (if is_file (cmake_lists root) then Some (Some (cmake_lists root)) else Some None)"
proof -
  have "search_up is_file (Some root) (parent root) = Some None"
    by (subst search_up.simps) simp
  moreover have "root \<noteq> parent root" using parent_neq [OF assms] by simp
  ultimately show ?thesis
    by (subst search_up.simps) (simp add: Let_def)
qed

lemma search_up_returns_inside:
  assumes "search_up is_file proj_root test_path = Some y"
  shows "\<forall>root. proj_root = Some root \<longrightarrow> (\<forall>p. \<not> is_file p) \<longrightarrow> prefix (parent root) test_path"
proof (rule search_up.raw_induct
    [where P = "\<lambda>isf pr t y. \<forall>root. pr = Some root \<longrightarrow> (\<forall>p. \<not> isf p) \<longrightarrow> prefix (parent root) t",
      OF _ assms])
  fix f isf pr t r
  assume IH: "\<And>a b c y. f a b c = Some y \<Longrightarrow>
      \<forall>root. b = Some root \<longrightarrow> (\<forall>p. \<not> a p) \<longrightarrow> prefix (parent root) c"
    and body: "(case pr of None \<Rightarrow> Some None
      | Some root \<Rightarrow>
          if t \<noteq> parent root
          then let cmake_list_file = cmake_lists t
               in if isf cmake_list_file then Some (Some cmake_list_file)
                  else f isf pr (parent t)
          else Some None) = Some r"
  show "\<forall>root. pr = Some root \<longrightarrow> (\<forall>p. \<not> isf p) \<longrightarrow> prefix (parent root) t"
  proof (intro allI impI)
    fix root
    assume r: "pr = Some root" and nf: "\<forall>p. \<not> isf p"
    show "prefix (parent root) t"
    proof (cases "t = parent root")
      case True
      then show ?thesis by simp
    next
      case False
      with body r nf have "f isf pr (parent t) = Some r"
        by (simp add: Let_def)
      then have "prefix (parent root) (parent t)"
        using IH r nf by blast
      moreover have "prefix (parent t) t"
        by (simp add: parent_def prefixeq_butlast)
      ultimately show ?thesis by (rule prefix_order.trans)
    qed
  qed
qed

lemma search_up_outside_root_never_returns:
  assumes "\<not> prefix (parent root) test_path" "\<forall>p. \<not> is_file p"
  shows "search_up is_file (Some root) test_path = None"
proof (cases "search_up is_file (Some root) test_path")
  case None
  then show ?thesis .
next
  case (Some y)
  then have "prefix (parent root) test_path"
    using search_up_returns_inside assms(2) by blast
  with assms(1) show ?thesis by simp
qed

text \<open>
  A component and a deployment outside the parent of the project root, and no build-list
  file anywhere: the walk reaches the root of the file system, which is its own parent,
  and never meets the parent of the project root.
\<close>

lemma find_nearest_cmake_lists_outside_root_never_returns:
  "find_nearest_cmake_lists (\<lambda>p. False) [''X'', ''C''] [''A'', ''P'', ''D''] (Some [''A'', ''P''])
     = None"
proof -
  have "search_up (\<lambda>p. False) (Some [''A'', ''P'']) [''X''] = None"
    by (rule search_up_outside_root_never_returns) (simp_all add: parent_def)
  then show ?thesis
    by (simp add: find_nearest_cmake_lists_def parent_def)
qed

text \<open>
  C3. The code at the claim's input: root \<open>A\<close>, deployment \<open>A/B\<close>, component \<open>A/B/C\<close>,
  a build-list file at \<open>A\<close> only. The first pass, from the component's parent, does not
  stop below the root: it reaches \<open>A\<close> and returns its file. With a second file at the
  deployment and the component in \<open>A/D/C\<close>, the root's file is returned although the
  deployment has one.
\<close>

theorem find_nearest_cmake_lists_first_pass_finds_root_file:
  "search_up (\<lambda>p. p = [''A'', ''CMakeLists.txt'']) (Some [''A'']) (parent [''A'', ''B'', ''C''])
     = Some (Some [''A'', ''CMakeLists.txt''])
   \<and> find_nearest_cmake_lists (\<lambda>p. p = [''A'', ''CMakeLists.txt''])
         [''A'', ''B'', ''C''] [''A'', ''B''] (Some [''A''])
       = Some (Inr (Some [''A'', ''CMakeLists.txt'']))
   \<and> find_nearest_cmake_lists
         (\<lambda>p. p = [''A'', ''CMakeLists.txt''] \<or> p = [''A'', ''B'', ''CMakeLists.txt''])
         [''A'', ''D'', ''C''] [''A'', ''B''] (Some [''A''])
       = Some (Inr (Some [''A'', ''CMakeLists.txt'']))"
  by (simp add: find_nearest_cmake_lists_def search_up.simps parent_def cmake_lists_def)

text \<open>
  C7. The code at the project root \<open>None\<close>: whatever the other arguments,
  \<open>find_nearest_cmake_lists\<close> raises \<open>AttributeError\<close> while building the list of pairs,
  before the loop and its test of \<open>proj_root\<close> are reached.
\<close>

theorem find_nearest_cmake_lists_no_root:
  "find_nearest_cmake_lists is_file component_dir deployment None = Some (Inl AttributeError)"
  by (simp add: find_nearest_cmake_lists_def)


end
